theory Spec2Isabelle
  imports Main "HOL-Library.Word" "HOL-Library.Multiset"
begin

section \<open>The lock guard (src/src/lockguard.h)\<close>

text \<open>
  \<^verbatim>\<open>lock_guard<T>\<close> stores a non-owning pointer \<^verbatim>\<open>mMutex\<close> to a mutex of type
  \<^verbatim>\<open>T\<close>. A mutex object is identified by its address; a pointer is an optional
  address, \<open>None\<close> being the null pointer. The template parameter \<^verbatim>\<open>T\<close> is any
  type with \<^verbatim>\<open>lock()\<close> and \<^verbatim>\<open>unlock()\<close>: it is represented by the two
  state transformers these members perform on a mutex object of type \<open>'m\<close>.

  The world the guard acts on holds the mutex objects by address and the history of
  the member calls made on them, oldest first.
\<close>

type_synonym addr = nat

datatype mutex_call = CallLock addr | CallUnlock addr

record 'm mutex_type =
  lock :: "'m \<Rightarrow> 'm"
  unlock :: "'m \<Rightarrow> 'm"

record 'm world =
  mutexes :: "addr \<Rightarrow> 'm"
  calls :: "mutex_call list"

record lock_guard =
  mMutex :: "addr option"

text \<open>\<^verbatim>\<open>p->lock()\<close> and \<^verbatim>\<open>p->unlock()\<close> on the mutex object at address \<open>a\<close>.\<close>

definition call_lock :: "'m mutex_type \<Rightarrow> addr \<Rightarrow> 'm world \<Rightarrow> 'm world" where
  "call_lock T a w =
     w\<lparr>mutexes := (mutexes w)(a := lock T (mutexes w a)),
       calls := calls w @ [CallLock a]\<rparr>"

definition call_unlock :: "'m mutex_type \<Rightarrow> addr \<Rightarrow> 'm world \<Rightarrow> 'm world" where
  "call_unlock T a w =
     w\<lparr>mutexes := (mutexes w)(a := unlock T (mutexes w a)),
       calls := calls w @ [CallUnlock a]\<rparr>"

text \<open>
  \<^verbatim>\<open>explicit lock_guard(mutex_type& aMutex) { mMutex = &aMutex; mMutex->lock(); }\<close>
  The argument is a reference, so it always designates an object: its address \<open>aMutex\<close>.
\<close>

definition lock_guard_ctor :: "'m mutex_type \<Rightarrow> addr \<Rightarrow> 'm world \<Rightarrow> lock_guard \<times> 'm world" where
  "lock_guard_ctor T aMutex w =
     (let g = \<lparr>mMutex = Some aMutex\<rparr>
      in case mMutex g of
           Some p \<Rightarrow> (g, call_lock T p w)
         | None \<Rightarrow> (g, w))"

text \<open>\<^verbatim>\<open>~lock_guard() { if(mMutex) mMutex->unlock(); }\<close>\<close>

definition lock_guard_dtor :: "'m mutex_type \<Rightarrow> lock_guard \<Rightarrow> 'm world \<Rightarrow> 'm world" where
  "lock_guard_dtor T g w =
     (case mMutex g of
        None \<Rightarrow> w
      | Some p \<Rightarrow> call_unlock T p w)"

text \<open>
  The class declares neither a copy constructor nor an assignment operator, and does
  nothing to disable them, so the language supplies both as public members. They copy
  the one data member and call nothing:
  \<^verbatim>\<open>lock_guard(const lock_guard& other) : mMutex(other.mMutex) {}\<close> and
  \<^verbatim>\<open>lock_guard& operator=(const lock_guard& other) { mMutex = other.mMutex; return *this; }\<close>
\<close>

definition lock_guard_copy_ctor :: "lock_guard \<Rightarrow> lock_guard" where
  "lock_guard_copy_ctor other = \<lparr>mMutex = mMutex other\<rparr>"

definition lock_guard_assign :: "lock_guard \<Rightarrow> lock_guard \<Rightarrow> lock_guard" where
  "lock_guard_assign this other = this\<lparr>mMutex := mMutex other\<rparr>"

text \<open>
  What client code can do with guards, the member \<^verbatim>\<open>mMutex\<close> being private: construct
  a guard on a mutex, construct one as the copy of another, assign one to another, and
  destroy one. Guard objects are told apart by an identity. The first identity of an
  operation is the guard it makes, changes or destroys.
\<close>

type_synonym guard_id = nat

datatype guard_op =
    Construct guard_id addr
  | CopyConstruct guard_id guard_id
  | Assign guard_id guard_id
  | Destroy guard_id

fun target :: "guard_op \<Rightarrow> guard_id" where
  "target (Construct i a) = i"
| "target (CopyConstruct i j) = i"
| "target (Assign i j) = i"
| "target (Destroy i) = i"

fun is_destroy :: "guard_op \<Rightarrow> bool" where
  "is_destroy (Destroy i) = True"
| "is_destroy (Construct i a) = False"
| "is_destroy (CopyConstruct i j) = False"
| "is_destroy (Assign i j) = False"

fun is_unlock :: "mutex_call \<Rightarrow> bool" where
  "is_unlock (CallUnlock a) = True"
| "is_unlock (CallLock a) = False"

text \<open>
  A configuration is the guards that are alive, by identity, and the world. An
  operation on a guard outside its lifetime (constructing over a live guard, copying
  from, assigning or destroying one that is not alive) is not a program of the
  language: its result is \<open>None\<close>.
\<close>

type_synonym 'm config = "(guard_id \<Rightarrow> lock_guard option) \<times> 'm world"

fun exec_op :: "'m mutex_type \<Rightarrow> guard_op \<Rightarrow> 'm config \<Rightarrow> 'm config option" where
  "exec_op T (Construct i a) (gs, w) =
     (if gs i \<noteq> None then None
      else let (g, w') = lock_guard_ctor T a w in Some (gs(i \<mapsto> g), w'))"
| "exec_op T (CopyConstruct i j) (gs, w) =
     (if gs i \<noteq> None then None
      else case gs j of
             None \<Rightarrow> None
           | Some other \<Rightarrow> Some (gs(i \<mapsto> lock_guard_copy_ctor other), w))"
| "exec_op T (Assign i j) (gs, w) =
     (case gs i of
        None \<Rightarrow> None
      | Some this \<Rightarrow>
          (case gs j of
             None \<Rightarrow> None
           | Some other \<Rightarrow> Some (gs(i \<mapsto> lock_guard_assign this other), w)))"
| "exec_op T (Destroy i) (gs, w) =
     (case gs i of
        None \<Rightarrow> None
      | Some g \<Rightarrow> Some (gs(i := None), lock_guard_dtor T g w))"

fun exec_ops :: "'m mutex_type \<Rightarrow> guard_op list \<Rightarrow> 'm config \<Rightarrow> 'm config option" where
  "exec_ops T [] c = Some c"
| "exec_ops T (x # xs) c =
     (case exec_op T x c of
        None \<Rightarrow> None
      | Some c' \<Rightarrow> exec_ops T xs c')"

text \<open>Every live guard holds a non-null pointer.\<close>

definition all_nonnull :: "(guard_id \<Rightarrow> lock_guard option) \<Rightarrow> bool" where
  "all_nonnull gs = (\<forall>i g. gs i = Some g \<longrightarrow> mMutex g \<noteq> None)"

text \<open>The calls on the mutex at \<open>a\<close> in a history.\<close>

fun lock_count :: "addr \<Rightarrow> mutex_call list \<Rightarrow> nat" where
  "lock_count a [] = 0"
| "lock_count a (CallLock b # cs) = (if a = b then 1 else 0) + lock_count a cs"
| "lock_count a (CallUnlock b # cs) = lock_count a cs"

fun unlock_count :: "addr \<Rightarrow> mutex_call list \<Rightarrow> nat" where
  "unlock_count a [] = 0"
| "unlock_count a (CallLock b # cs) = unlock_count a cs"
| "unlock_count a (CallUnlock b # cs) = (if a = b then 1 else 0) + unlock_count a cs"

text \<open>
  A mutex type for the examples: the mutex object counts how often it is held. At the
  start no guard is alive, no mutex is held and no call has been made.
\<close>

definition counting_mutex :: "nat mutex_type" where
  "counting_mutex = \<lparr>lock = Suc, unlock = (\<lambda>n. n - 1)\<rparr>"

definition idle_world :: "nat world" where
  "idle_world = \<lparr>mutexes = (\<lambda>_. 0), calls = []\<rparr>"

definition history :: "'m config option \<Rightarrow> mutex_call list option" where
  "history r = map_option (\<lambda>c. calls (snd c)) r"

definition pointer_of :: "'m config option \<Rightarrow> guard_id \<Rightarrow> addr option" where
  "pointer_of r i =
     (case r of
        None \<Rightarrow> None
      | Some c \<Rightarrow> (case fst c i of None \<Rightarrow> None | Some g \<Rightarrow> mMutex g))"

section \<open>Work-unit keys and the dependency cache\<close>

text \<open>
  Of the scheduler, the repository's files hold the umbrella header
  \<^verbatim>\<open>dagframescheduler.h\<close>, whose long comment describes the algorithm, and the
  README; the work unit, its key and the frame scheduler themselves are in files that
  are missing. The definitions of this section are therefore written from the
  specification (sections 3, 4.2, 4.3 and 6), and each says so.
\<close>

text \<open>
  Modelled from the spec: the identity of a work unit (section 3): "Identity is by
  handle; equality by handle."
\<close>

type_synonym handle = nat

text \<open>
  Modelled from the spec: the kinds of work unit (section 6):
  "kind in {normal, main_affinity, monopoly, async}".
\<close>

datatype unit_kind = Normal | MainAffinity | Monopoly | Asynchronous

text \<open>
  Modelled from the spec: the work-unit key (the class \<^verbatim>\<open>WorkUnitKey\<close> of
  \<^verbatim>\<open>workunitkey.h\<close> is missing): "a triple (dependent-count, performance-sample,
  handle)", the performance sample being "a 64-bit performance sample (the moving
  average of recent runtimes in microseconds)".
\<close>

record WorkUnitKey =
  dependent_count :: nat
  perf_sample :: "64 word"
  unit_handle :: handle

text \<open>
  Modelled from the spec: the comparison of two keys (the comparison operator of the
  missing \<^verbatim>\<open>WorkUnitKey\<close>): "Ordering is lexicographic, descending on
  dependent-count first, then descending on performance-sample, with handle as a stable
  tiebreak", the handle ascending. \<open>key_before a b\<close> says that \<open>a\<close> is dispatched
  strictly earlier than \<open>b\<close>.
\<close>

definition key_before :: "WorkUnitKey \<Rightarrow> WorkUnitKey \<Rightarrow> bool" where
  "key_before a b =
     (dependent_count b < dependent_count a
      \<or> dependent_count a = dependent_count b
        \<and> (perf_sample b < perf_sample a
           \<or> perf_sample a = perf_sample b \<and> unit_handle a < unit_handle b))"

text \<open>The same order with equal keys allowed next to each other.\<close>

definition key_le :: "WorkUnitKey \<Rightarrow> WorkUnitKey \<Rightarrow> bool" where
  "key_le a b = (key_before a b \<or> a = b)"

text \<open>
  Modelled from the spec: the sort of the keys (the body of the missing
  \<^verbatim>\<open>FrameScheduler::SortWorkUnits\<close>): "Sort descending". The spec names no
  algorithm; this is an insertion sort by \<open>key_before\<close>.
\<close>

fun insert_key :: "WorkUnitKey \<Rightarrow> WorkUnitKey list \<Rightarrow> WorkUnitKey list" where
  "insert_key k [] = [k]"
| "insert_key k (x # xs) = (if key_before k x then k # x # xs else x # insert_key k xs)"

fun sort_keys :: "WorkUnitKey list \<Rightarrow> WorkUnitKey list" where
  "sort_keys [] = []"
| "sort_keys (k # ks) = insert_key k (sort_keys ks)"

text \<open>
  Modelled from the spec: the frame scheduler's registry and dependency cache (the class
  \<^verbatim>\<open>FrameScheduler\<close> of \<^verbatim>\<open>framescheduler.h\<close> is missing): the registry of
  work units with their kind, the forward edges only (each unit's ordered list of
  immediate predecessors), each unit's performance sample, and the cache: the map from
  handle to dependent-count, the two sorted dispatch sequences and the dirty flag.
\<close>

record FrameScheduler =
  registry :: "handle list"
  kind_of :: "handle \<Rightarrow> unit_kind"
  dependencies :: "handle \<Rightarrow> handle list"
  performance :: "handle \<Rightarrow> 64 word"
  next_handle :: handle
  dependent_counts :: "handle \<Rightarrow> nat"
  affinity_sequence :: "WorkUnitKey list"
  normal_sequence :: "WorkUnitKey list"
  cache_dirty :: bool

text \<open>
  Modelled from the spec: a scheduler in which nothing is registered yet (the missing
  constructor of \<^verbatim>\<open>FrameScheduler\<close>): no unit, no edge, a clean and empty cache.
\<close>

definition empty_scheduler :: FrameScheduler where
  "empty_scheduler =
     \<lparr>registry = [], kind_of = (\<lambda>_. Normal), dependencies = (\<lambda>_. []),
      performance = (\<lambda>_. 0), next_handle = 0, dependent_counts = (\<lambda>_. 0),
      affinity_sequence = [], normal_sequence = [], cache_dirty = False\<rparr>"

text \<open>
  Modelled from the spec: \<^verbatim>\<open>add_work_unit(unit, kind)\<close> (section 6): it "returns a
  stable handle"; the unit joins the registry with its kind, and the derived structures
  are out of date.
\<close>

definition add_work_unit :: "unit_kind \<Rightarrow> FrameScheduler \<Rightarrow> handle \<times> FrameScheduler" where
  "add_work_unit k s =
     (let h = next_handle s
      in (h, s\<lparr>registry := registry s @ [h],
                kind_of := (kind_of s)(h := k),
                next_handle := Suc h,
                cache_dirty := True\<rparr>))"

text \<open>
  Modelled from the spec: \<^verbatim>\<open>add_dependency(dependent, predecessor)\<close> (section 4.2):
  "Adding a dependency: append v's handle to u's dependency list; mark the cache dirty."
\<close>

definition add_dependency :: "handle \<Rightarrow> handle \<Rightarrow> FrameScheduler \<Rightarrow> FrameScheduler" where
  "add_dependency u v s =
     s\<lparr>dependencies := (dependencies s)(u := dependencies s u @ [v]),
       cache_dirty := True\<rparr>"

text \<open>
  Modelled from the spec: \<^verbatim>\<open>remove_work_unit(handle)\<close> (section 4.2): "Removing a
  unit: remove from registry; for every remaining unit, filter its dependency list; mark
  dirty."
\<close>

definition remove_work_unit :: "handle \<Rightarrow> FrameScheduler \<Rightarrow> FrameScheduler" where
  "remove_work_unit h s =
     s\<lparr>registry := removeAll h (registry s),
       dependencies := (\<lambda>u. removeAll h (dependencies s u)),
       cache_dirty := True\<rparr>"

text \<open>
  Modelled from the spec: the dependent count (section 4.3, step 1):
  "\<^verbatim>\<open>dependents(u)\<close> = number of units v such that u appears transitively in v's
  predecessor closure". \<open>in_closure d n v u\<close> follows the dependency lists from \<open>v\<close>
  for at most \<open>n\<close> edges, and the search is given as many edges as the registry's
  dependency lists hold together, which is enough to reach the whole closure
  (\<open>in_closure_trancl\<close> below).
\<close>

fun in_closure :: "(handle \<Rightarrow> handle list) \<Rightarrow> nat \<Rightarrow> handle \<Rightarrow> handle \<Rightarrow> bool" where
  "in_closure d 0 v u = False"
| "in_closure d (Suc n) v u = (u \<in> set (d v) \<or> (\<exists>w \<in> set (d v). in_closure d n w u))"

text \<open>
  Modelled from the spec: the number of forward edges the registered units store (the
  bound of the search above), and the dependent count itself.
\<close>

definition edge_count :: "FrameScheduler \<Rightarrow> nat" where
  "edge_count s = length (concat (map (dependencies s) (registry s)))"

definition dependents :: "FrameScheduler \<Rightarrow> handle \<Rightarrow> nat" where
  "dependents s u =
     length (filter (\<lambda>v. in_closure (dependencies s) (edge_count s) v u) (registry s))"

text \<open>
  The forward edges as a relation, from predecessor to dependent, and as the list of
  the edges of the registered units: the terms in which the search is shown to reach
  the predecessor closure.
\<close>

definition dep_rel :: "(handle \<Rightarrow> handle list) \<Rightarrow> (handle \<times> handle) set" where
  "dep_rel d = {(p, v). p \<in> set (d v)}"

definition edge_list :: "(handle \<Rightarrow> handle list) \<Rightarrow> handle list \<Rightarrow> (handle \<times> handle) list" where
  "edge_list d reg = concat (map (\<lambda>v. map (\<lambda>p. (p, v)) (d v)) reg)"

text \<open>Modelled from the spec: section 4.3, step 2: "Form Key(u) = (dependents(u), perf_sample(u), handle(u))".\<close>

definition key_of :: "FrameScheduler \<Rightarrow> handle \<Rightarrow> WorkUnitKey" where
  "key_of s u =
     \<lparr>dependent_count = dependents s u, perf_sample = performance s u, unit_handle = u\<rparr>"

text \<open>
  Modelled from the spec: the test that partitions the sorted keys (section 4.3, step
  3): whether the key's unit was registered as a main-affinity unit.
\<close>

definition is_affinity :: "FrameScheduler \<Rightarrow> WorkUnitKey \<Rightarrow> bool" where
  "is_affinity s k = (kind_of s (unit_handle k) = MainAffinity)"

text \<open>
  Modelled from the spec: \<^verbatim>\<open>update_dependency_cache\<close> (the missing
  \<^verbatim>\<open>FrameScheduler::UpdateDependencyCache\<close>), section 4.3: for every unit compute
  the dependent count, form the key, "Sort descending. Partition into
  (main-affinity-sorted, non-affinity-sorted)"; the cache is clean afterwards.
\<close>

definition update_dependency_cache :: "FrameScheduler \<Rightarrow> FrameScheduler" where
  "update_dependency_cache s =
     (let sorted_keys = sort_keys (map (key_of s) (registry s))
      in s\<lparr>dependent_counts := dependents s,
            affinity_sequence := filter (is_affinity s) sorted_keys,
            normal_sequence := filter (\<lambda>k. \<not> is_affinity s k) sorted_keys,
            cache_dirty := False\<rparr>)"

text \<open>
  Modelled from the spec: \<^verbatim>\<open>sort_work_units(rebuild_cache: bool)\<close> (section 6):
  "orders the dispatch sequence"; with the flag set it rebuilds the cache first, as the
  README's entry of Nov 27, 2012 says of \<^verbatim>\<open>FrameScheduler::SortWorkUnits()\<close>.
\<close>

definition sort_work_units :: "bool \<Rightarrow> FrameScheduler \<Rightarrow> FrameScheduler" where
  "sort_work_units rebuild_cache s =
     (if rebuild_cache then update_dependency_cache s
      else s\<lparr>affinity_sequence := sort_keys (affinity_sequence s),
             normal_sequence := sort_keys (normal_sequence s)\<rparr>)"

text \<open>
  Modelled from the spec: the order of a sorted dispatch sequence (section 8, property
  5): "sorted by (dependent-count desc, perf-sample desc, handle asc)". An entry \<open>a\<close>
  may stand before an entry \<open>b\<close> when it has more dependents, or as many and a larger
  performance sample, or both equal and a handle that is not larger.
\<close>

definition dispatch_order :: "WorkUnitKey \<Rightarrow> WorkUnitKey \<Rightarrow> bool" where
  "dispatch_order a b =
     (dependent_count b < dependent_count a
      \<or> dependent_count a = dependent_count b
        \<and> (perf_sample b < perf_sample a
           \<or> perf_sample a = perf_sample b \<and> unit_handle a \<le> unit_handle b))"

text \<open>
  The diamond of the spec's scenario S2, built through the client operations: \<open>b\<close>
  and \<open>c\<close> depend on \<open>a\<close>, \<open>d\<close> depends on both and is a main-affinity
  unit; \<open>c\<close> has run for 500 microseconds on average, the others have no history.
\<close>

definition diamond :: FrameScheduler where
  "diamond =
     (let (a, s1) = add_work_unit Normal empty_scheduler;
          (b, s2) = add_work_unit Normal s1;
          (c, s3) = add_work_unit Normal s2;
          (d, s4) = add_work_unit MainAffinity s3;
          s5 = add_dependency b a s4;
          s6 = add_dependency c a s5;
          s7 = add_dependency d b s6;
          s8 = add_dependency d c s7
      in s8\<lparr>performance := (performance s8)(c := 500)\<rparr>)"

section \<open>Properties of the lock guard\<close>

lemma exec_ops_append:
  "exec_ops T (xs @ ys) c =
     (case exec_ops T xs c of None \<Rightarrow> None | Some c' \<Rightarrow> exec_ops T ys c')"
  by (induction xs arbitrary: c) (auto split: option.splits)

lemma exec_op_other:
  assumes "target x \<noteq> i" and "exec_op T x (gs, w) = Some (gs', w')"
  shows "gs' i = gs i"
  using assms
  by (cases x) (auto simp: Let_def split: if_splits option.splits prod.splits)

lemma exec_ops_other:
  assumes "\<forall>x \<in> set xs. target x \<noteq> i" and "exec_ops T xs (gs, w) = Some (gs', w')"
  shows "gs' i = gs i"
  using assms
proof (induction xs arbitrary: gs w)
  case Nil
  then show ?case by simp
next
  case (Cons x xs)
  from Cons.prems(2) obtain gs1 w1 where
    s1: "exec_op T x (gs, w) = Some (gs1, w1)" and r: "exec_ops T xs (gs1, w1) = Some (gs', w')"
    by (auto split: option.splits)
  have "gs1 i = gs i"
    using exec_op_other[OF _ s1] Cons.prems(1) by simp
  moreover have "gs' i = gs1 i"
    using Cons.IH[OF _ r] Cons.prems(1) by simp
  ultimately show ?case by simp
qed

lemma nonnull_pointer:
  assumes "all_nonnull gs" and "gs i = Some g"
  obtains a where "mMutex g = Some a"
  using assms unfolding all_nonnull_def by blast

lemma exec_op_nonnull:
  assumes "all_nonnull gs" and "exec_op T x (gs, w) = Some (gs', w')"
  shows "all_nonnull gs'"
  using assms
  by (cases x)
     (auto simp: all_nonnull_def lock_guard_ctor_def lock_guard_copy_ctor_def
        lock_guard_assign_def Let_def split: if_splits option.splits)

lemma exec_op_unlocks:
  assumes "all_nonnull gs" and "exec_op T x (gs, w) = Some (gs', w')"
  shows "length (filter is_unlock (calls w'))
           = length (filter is_unlock (calls w)) + (if is_destroy x then 1 else 0)"
proof (cases x)
  case (Construct i a)
  with assms(2) show ?thesis
    by (auto simp: lock_guard_ctor_def call_lock_def Let_def split: if_splits)
next
  case (CopyConstruct i j)
  with assms(2) show ?thesis
    by (auto split: if_splits option.splits)
next
  case (Assign i j)
  with assms(2) show ?thesis
    by (auto split: option.splits)
next
  case (Destroy i)
  with assms(2) obtain g where g: "gs i = Some g" and w': "w' = lock_guard_dtor T g w"
    by (auto split: option.splits)
  from assms(1) g obtain a where "mMutex g = Some a"
    by (rule nonnull_pointer)
  with w' Destroy show ?thesis
    by (simp add: lock_guard_dtor_def call_unlock_def)
qed

lemma exec_ops_invariant:
  assumes "all_nonnull gs" and "exec_ops T xs (gs, w) = Some (gs', w')"
  shows "all_nonnull gs'
         \<and> length (filter is_unlock (calls w'))
             = length (filter is_unlock (calls w)) + length (filter is_destroy xs)"
  using assms
proof (induction xs arbitrary: gs w)
  case Nil
  then show ?case by simp
next
  case (Cons x xs)
  from Cons.prems(2) obtain gs1 w1 where
    s1: "exec_op T x (gs, w) = Some (gs1, w1)" and r: "exec_ops T xs (gs1, w1) = Some (gs', w')"
    by (auto split: option.splits)
  have n1: "all_nonnull gs1"
    using exec_op_nonnull[OF Cons.prems(1) s1] .
  have u1: "length (filter is_unlock (calls w1))
              = length (filter is_unlock (calls w)) + (if is_destroy x then 1 else 0)"
    using exec_op_unlocks[OF Cons.prems(1) s1] .
  from Cons.IH[OF n1 r] u1 show ?case by simp
qed

text \<open>
  Claim C9, as stated, speaks of every \<^verbatim>\<open>lock_guard<T>\<close> object. A guard made by the
  implicit copy constructor is constructed without any call of \<^verbatim>\<open>lock()\<close>, and its
  destruction still calls \<^verbatim>\<open>unlock()\<close>: a guard on mutex 1 and its copy make one
  lock and two unlocks of that mutex. A guard that is assigned another guard unlocks
  the other guard's mutex, not the one it locked: mutex 1 is locked and never unlocked,
  mutex 2 is unlocked twice.
\<close>

theorem copied_guard_unbalanced:
  "history (exec_ops counting_mutex [Construct 0 1] (Map.empty, idle_world))
     = Some [CallLock 1]
   \<and> history (exec_ops counting_mutex [Construct 0 1, CopyConstruct 1 0] (Map.empty, idle_world))
     = Some [CallLock 1]
   \<and> history (exec_ops counting_mutex [Construct 0 1, CopyConstruct 1 0, Destroy 1, Destroy 0]
        (Map.empty, idle_world))
     = Some [CallLock 1, CallUnlock 1, CallUnlock 1]
   \<and> map_option (lock_count 1)
       (history (exec_ops counting_mutex [Construct 0 1, CopyConstruct 1 0, Destroy 1, Destroy 0]
          (Map.empty, idle_world)))
     = Some 1
   \<and> map_option (unlock_count 1)
       (history (exec_ops counting_mutex [Construct 0 1, CopyConstruct 1 0, Destroy 1, Destroy 0]
          (Map.empty, idle_world)))
     = Some 2
   \<and> history (exec_ops counting_mutex
        [Construct 0 1, Construct 1 2, Assign 0 1, Destroy 0, Destroy 1] (Map.empty, idle_world))
     = Some [CallLock 1, CallLock 2, CallUnlock 2, CallUnlock 2]"
  by (simp add: history_def lock_guard_ctor_def lock_guard_dtor_def lock_guard_copy_ctor_def
      lock_guard_assign_def call_lock_def call_unlock_def idle_world_def Let_def)

text \<open>
  Claim C9, amended. For every guard that the declared constructor makes on a mutex
  \<open>a\<close> and that is not assigned to while it is alive, whatever else the program does
  in between, to other guards or with copies of this one: constructing it makes exactly
  one call, \<^verbatim>\<open>lock()\<close> on \<open>a\<close>, and changes no other mutex; the guard still points
  to \<open>a\<close> when it is destroyed; destroying it makes exactly one call,
  \<^verbatim>\<open>unlock()\<close> on the same mutex, and changes no other mutex. The guard's own calls
  are this one lock followed by this one unlock: copying from the guard and assigning
  it to another guard call nothing.
\<close>

theorem constructed_guard_balanced:
  assumes fresh: "gs i = None"
    and untouched: "\<forall>x \<in> set body. target x \<noteq> i"
    and body: "exec_ops T body (gs(i \<mapsto> \<lparr>mMutex = Some a\<rparr>), call_lock T a w) = Some (gs2, w2)"
  shows "exec_op T (Construct i a) (gs, w)
           = Some (gs(i \<mapsto> \<lparr>mMutex = Some a\<rparr>), call_lock T a w)
         \<and> calls (call_lock T a w) = calls w @ [CallLock a]
         \<and> mutexes (call_lock T a w) = (mutexes w)(a := lock T (mutexes w a))
         \<and> gs2 i = Some \<lparr>mMutex = Some a\<rparr>
         \<and> exec_op T (Destroy i) (gs2, w2) = Some (gs2(i := None), call_unlock T a w2)
         \<and> calls (call_unlock T a w2) = calls w2 @ [CallUnlock a]
         \<and> mutexes (call_unlock T a w2) = (mutexes w2)(a := unlock T (mutexes w2 a))
         \<and> exec_ops T (Construct i a # body @ [Destroy i]) (gs, w)
           = Some (gs2(i := None), call_unlock T a w2)
         \<and> (\<forall>j hs v c. exec_op T (CopyConstruct j i) (hs, v) = Some c \<longrightarrow> snd c = v)
         \<and> (\<forall>j hs v c. exec_op T (Assign j i) (hs, v) = Some c \<longrightarrow> snd c = v)"
proof -
  have c: "exec_op T (Construct i a) (gs, w)
             = Some (gs(i \<mapsto> \<lparr>mMutex = Some a\<rparr>), call_lock T a w)"
    using fresh by (simp add: lock_guard_ctor_def Let_def)
  have "gs2 i = (gs(i \<mapsto> \<lparr>mMutex = Some a\<rparr>)) i"
    using untouched body by (rule exec_ops_other)
  then have g: "gs2 i = Some \<lparr>mMutex = Some a\<rparr>"
    by simp
  have d: "exec_op T (Destroy i) (gs2, w2) = Some (gs2(i := None), call_unlock T a w2)"
    using g by (simp add: lock_guard_dtor_def)
  have "exec_ops T (body @ [Destroy i]) (gs(i \<mapsto> \<lparr>mMutex = Some a\<rparr>), call_lock T a w)
          = Some (gs2(i := None), call_unlock T a w2)"
    using body d by (simp add: exec_ops_append)
  then have p: "exec_ops T (Construct i a # body @ [Destroy i]) (gs, w)
                  = Some (gs2(i := None), call_unlock T a w2)"
    using c by simp
  have r: "snd c' = v" if "exec_op T (CopyConstruct j i) (hs, v) = Some c'" for j hs v c'
    using that by (auto split: if_splits option.splits)
  have s: "snd c' = v" if "exec_op T (Assign j i) (hs, v) = Some c'" for j hs v c'
    using that by (auto split: option.splits)
  have "calls (call_lock T a w) = calls w @ [CallLock a]
        \<and> mutexes (call_lock T a w) = (mutexes w)(a := lock T (mutexes w a))
        \<and> calls (call_unlock T a w2) = calls w2 @ [CallUnlock a]
        \<and> mutexes (call_unlock T a w2) = (mutexes w2)(a := unlock T (mutexes w2 a))"
    by (simp add: call_lock_def call_unlock_def)
  with c g d p r s show ?thesis
    by blast
qed

text \<open>
  A guard on mutex 1 that is copied while it is alive, the copy being destroyed first:
  the guard's construction is the call \<^verbatim>\<open>lock()\<close> on mutex 1 and its destruction
  the last call, \<^verbatim>\<open>unlock()\<close> on mutex 1. With nothing in between the two calls
  are the whole history.
\<close>

theorem constructed_guard_balanced_example:
  "history (exec_ops counting_mutex (Construct 0 1 # [CopyConstruct 1 0, Destroy 1] @ [Destroy 0])
      (Map.empty, idle_world))
     = Some [CallLock 1, CallUnlock 1, CallUnlock 1]
   \<and> history (exec_ops counting_mutex (Construct 0 1 # [] @ [Destroy 0]) (Map.empty, idle_world))
     = Some [CallLock 1, CallUnlock 1]
   \<and> pointer_of (exec_ops counting_mutex (Construct 0 1 # [CopyConstruct 1 0, Destroy 1])
        (Map.empty, idle_world)) 0
     = Some 1"
proof (cases "exec_ops counting_mutex [CopyConstruct 1 0, Destroy 1]
                (Map.empty(0 \<mapsto> \<lparr>mMutex = Some 1\<rparr>), call_lock counting_mutex 1 idle_world)")
  case None
  then show ?thesis
    by (simp add: lock_guard_copy_ctor_def lock_guard_dtor_def)
next
  case (Some c)
  obtain gs2 w2 where c: "c = (gs2, w2)"
    by (cases c)
  have fresh: "(Map.empty :: guard_id \<Rightarrow> lock_guard option) 0 = None"
    by simp
  have untouched: "\<forall>x \<in> set [CopyConstruct 1 0, Destroy 1]. target x \<noteq> 0"
    by simp
  have body: "exec_ops counting_mutex [CopyConstruct 1 0, Destroy 1]
                (Map.empty(0 \<mapsto> \<lparr>mMutex = Some 1\<rparr>), call_lock counting_mutex 1 idle_world)
              = Some (gs2, w2)"
    using Some unfolding c .
  note balanced = constructed_guard_balanced [OF fresh untouched body]
  from balanced have whole:
    "exec_ops counting_mutex (Construct 0 1 # [CopyConstruct 1 0, Destroy 1] @ [Destroy 0])
       (Map.empty, idle_world) = Some (gs2(0 := None), call_unlock counting_mutex 1 w2)"
    by blast
  from body have w2: "calls w2 = [CallLock 1, CallUnlock 1]"
    by (auto simp: lock_guard_copy_ctor_def lock_guard_dtor_def call_lock_def call_unlock_def
        idle_world_def)
  have first: "history (exec_ops counting_mutex
                 (Construct 0 1 # [CopyConstruct 1 0, Destroy 1] @ [Destroy 0])
                 (Map.empty, idle_world)) = Some [CallLock 1, CallUnlock 1, CallUnlock 1]"
    unfolding whole by (simp add: history_def call_unlock_def w2)
  have rest:
    "history (exec_ops counting_mutex (Construct 0 1 # [] @ [Destroy 0]) (Map.empty, idle_world))
       = Some [CallLock 1, CallUnlock 1]
     \<and> pointer_of (exec_ops counting_mutex (Construct 0 1 # [CopyConstruct 1 0, Destroy 1])
          (Map.empty, idle_world)) 0
       = Some 1"
    by (simp add: history_def pointer_of_def lock_guard_ctor_def lock_guard_dtor_def
        lock_guard_copy_ctor_def call_lock_def call_unlock_def idle_world_def Let_def)
  from first rest show ?thesis
    by (rule conjI)
qed

text \<open>
  Claim C10. In every program that starts with no guard alive, whatever it constructs,
  copies, assigns and destroys, every guard that is alive holds a non-null pointer: the
  constructor stores the address of a mutex, and the implicit copy constructor and
  assignment operator only hand on the pointer of a live guard. So the destructor of a
  live guard never takes the branch that skips \<^verbatim>\<open>unlock()\<close>: in whatever world it
  runs, it is the call of \<^verbatim>\<open>unlock()\<close> on the mutex the guard points to. Every
  destruction the program has performed has made one such call.
\<close>

theorem lock_guard_pointer_never_null:
  assumes "exec_ops T xs (Map.empty, w) = Some (gs, w')"
  shows "(\<forall>i g. gs i = Some g \<longrightarrow>
            mMutex g \<noteq> None
            \<and> (\<forall>v. lock_guard_dtor T g v = call_unlock T (the (mMutex g)) v
                 \<and> calls (lock_guard_dtor T g v) = calls v @ [CallUnlock (the (mMutex g))]
                 \<and> mutexes (lock_guard_dtor T g v)
                     = (mutexes v)(the (mMutex g) := unlock T (mutexes v (the (mMutex g))))))
         \<and> length (filter is_unlock (calls w'))
             = length (filter is_unlock (calls w)) + length (filter is_destroy xs)"
proof -
  have "all_nonnull Map.empty"
    by (simp add: all_nonnull_def)
  from exec_ops_invariant [OF this assms]
  have n: "all_nonnull gs"
    and u: "length (filter is_unlock (calls w'))
              = length (filter is_unlock (calls w)) + length (filter is_destroy xs)"
    by simp_all
  have "mMutex g \<noteq> None
        \<and> (\<forall>v. lock_guard_dtor T g v = call_unlock T (the (mMutex g)) v
             \<and> calls (lock_guard_dtor T g v) = calls v @ [CallUnlock (the (mMutex g))]
             \<and> mutexes (lock_guard_dtor T g v)
                 = (mutexes v)(the (mMutex g) := unlock T (mutexes v (the (mMutex g)))))"
    if "gs i = Some g" for i g
  proof -
    from n that obtain a where "mMutex g = Some a"
      by (rule nonnull_pointer)
    then show ?thesis
      by (simp add: lock_guard_dtor_def call_unlock_def)
  qed
  with u show ?thesis
    by blast
qed

text \<open>
  A program that copies a guard and re-points the original by assignment: afterwards
  guard 0 points to mutex 5, its copy to mutex 1, and the one destruction has unlocked
  mutex 5.
\<close>

theorem lock_guard_pointer_never_null_example:
  "pointer_of (exec_ops counting_mutex
       [Construct 0 1, CopyConstruct 1 0, Construct 2 5, Assign 0 2, Destroy 2]
       (Map.empty, idle_world)) 0 = Some 5
   \<and> pointer_of (exec_ops counting_mutex
       [Construct 0 1, CopyConstruct 1 0, Construct 2 5, Assign 0 2, Destroy 2]
       (Map.empty, idle_world)) 1 = Some 1
   \<and> history (exec_ops counting_mutex
       [Construct 0 1, CopyConstruct 1 0, Construct 2 5, Assign 0 2, Destroy 2]
       (Map.empty, idle_world)) = Some [CallLock 1, CallLock 5, CallUnlock 5]"
proof (cases "exec_ops counting_mutex
                [Construct 0 1, CopyConstruct 1 0, Construct 2 5, Assign 0 2, Destroy 2]
                (Map.empty, idle_world)")
  case None
  then show ?thesis
    by (simp add: lock_guard_ctor_def lock_guard_copy_ctor_def lock_guard_assign_def
        lock_guard_dtor_def Let_def)
next
  case (Some c)
  obtain gs w' where c: "c = (gs, w')"
    by (cases c)
  have run: "exec_ops counting_mutex
               [Construct 0 1, CopyConstruct 1 0, Construct 2 5, Assign 0 2, Destroy 2]
               (Map.empty, idle_world) = Some (gs, w')"
    using Some unfolding c .
  note never_null = lock_guard_pointer_never_null [OF run]
  from run have g0: "gs 0 = Some \<lparr>mMutex = Some 5\<rparr>" and g1: "gs 1 = Some \<lparr>mMutex = Some 1\<rparr>"
    and h: "calls w' = [CallLock 1, CallLock 5, CallUnlock 5]"
    by (auto simp: lock_guard_ctor_def lock_guard_dtor_def lock_guard_copy_ctor_def
        lock_guard_assign_def call_lock_def call_unlock_def idle_world_def Let_def)
  from never_null g0 g1 have "mMutex (the (gs 0)) \<noteq> None" and "mMutex (the (gs 1)) \<noteq> None"
    by simp_all
  with g0 g1 h show ?thesis
    unfolding run by (simp add: history_def pointer_of_def)
qed

section \<open>Properties of the dispatch order\<close>

lemma in_closure_relpow:
  "in_closure d n v u \<longleftrightarrow> (\<exists>k. 0 < k \<and> k \<le> n \<and> (u, v) \<in> dep_rel d ^^ k)"
proof (induction n arbitrary: v)
  case 0
  then show ?case by simp
next
  case (Suc n)
  show ?case
  proof
    assume "in_closure d (Suc n) v u"
    then consider "u \<in> set (d v)" | w where "w \<in> set (d v)" "in_closure d n w u"
      by auto
    then show "\<exists>k. 0 < k \<and> k \<le> Suc n \<and> (u, v) \<in> dep_rel d ^^ k"
    proof cases
      case 1
      then have "(u, v) \<in> dep_rel d ^^ 1" by (simp add: dep_rel_def)
      then show ?thesis by (intro exI[of _ 1]) simp
    next
      case 2
      then obtain k where k: "0 < k" "k \<le> n" "(u, w) \<in> dep_rel d ^^ k"
        using Suc.IH by blast
      have "(w, v) \<in> dep_rel d" using 2 by (simp add: dep_rel_def)
      with k have "(u, v) \<in> dep_rel d ^^ Suc k" by auto
      with k show ?thesis by (intro exI[of _ "Suc k"]) simp
    qed
  next
    assume "\<exists>k. 0 < k \<and> k \<le> Suc n \<and> (u, v) \<in> dep_rel d ^^ k"
    then obtain k where k: "0 < k" "k \<le> Suc n" "(u, v) \<in> dep_rel d ^^ k" by blast
    then obtain j where j: "k = Suc j" by (cases k) auto
    with k obtain w where w: "(u, w) \<in> dep_rel d ^^ j" "(w, v) \<in> dep_rel d" by auto
    show "in_closure d (Suc n) v u"
    proof (cases j)
      case 0
      with w show ?thesis by (simp add: dep_rel_def)
    next
      case (Suc i)
      with k j w have "0 < j \<and> j \<le> n \<and> (u, w) \<in> dep_rel d ^^ j" by simp
      then have "in_closure d n w u" using Suc.IH[of w] by blast
      with w show ?thesis by (auto simp: dep_rel_def)
    qed
  qed
qed

lemma length_edge_list: "length (edge_list d reg) = length (concat (map d reg))"
  by (induction reg) (simp_all add: edge_list_def)

lemma dep_rel_edge_list:
  assumes "\<forall>v. v \<notin> set reg \<longrightarrow> d v = []"
  shows "dep_rel d = set (edge_list d reg)"
proof -
  have "p \<in> set (d v) \<Longrightarrow> v \<in> set reg" for p v
    using assms by fastforce
  then show ?thesis
    by (auto simp: dep_rel_def edge_list_def)
qed

lemma in_closure_trancl:
  assumes "\<forall>v. v \<notin> set reg \<longrightarrow> d v = []"
  shows "in_closure d (length (concat (map d reg))) v u \<longleftrightarrow> (u, v) \<in> (dep_rel d)\<^sup>+"
proof -
  have R: "dep_rel d = set (edge_list d reg)"
    using assms by (rule dep_rel_edge_list)
  then have fin: "finite (dep_rel d)" by simp
  have "card (dep_rel d) \<le> length (concat (map d reg))"
    unfolding R using card_length[of "edge_list d reg"] by (simp add: length_edge_list)
  then have bound: "k \<le> card (dep_rel d) \<Longrightarrow> k \<le> length (concat (map d reg))" for k
    by simp
  show ?thesis
  proof
    assume "in_closure d (length (concat (map d reg))) v u"
    then obtain k where "0 < k" "(u, v) \<in> dep_rel d ^^ k"
      unfolding in_closure_relpow by blast
    then show "(u, v) \<in> (dep_rel d)\<^sup>+"
      using trancl_power by blast
  next
    assume "(u, v) \<in> (dep_rel d)\<^sup>+"
    then obtain k where "0 < k" "k \<le> card (dep_rel d)" "(u, v) \<in> dep_rel d ^^ k"
      unfolding trancl_finite_eq_relpow[OF fin] by blast
    then show "in_closure d (length (concat (map d reg))) v u"
      unfolding in_closure_relpow using bound by blast
  qed
qed

lemma dependents_closure:
  assumes "\<forall>v. v \<notin> set (registry s) \<longrightarrow> dependencies s v = []"
  shows "dependents s u
           = length (filter (\<lambda>v. (u, v) \<in> (dep_rel (dependencies s))\<^sup>+) (registry s))"
  using in_closure_trancl [OF assms] by (simp add: dependents_def edge_count_def)

lemma key_before_trans: "key_before a b \<Longrightarrow> key_before b c \<Longrightarrow> key_before a c"
  by (auto simp: key_before_def)

lemma key_before_total: "key_before a b \<or> a = b \<or> key_before b a"
  by (cases a; cases b) (auto simp: key_before_def)

lemma key_le_trans: "key_le a b \<Longrightarrow> key_le b c \<Longrightarrow> key_le a c"
  unfolding key_le_def using key_before_trans by blast

lemma key_le_dispatch_order: "key_le a b \<Longrightarrow> dispatch_order a b"
  by (auto simp: key_le_def key_before_def dispatch_order_def)

lemma set_insert_key: "set (insert_key k xs) = insert k (set xs)"
  by (induction xs) auto

lemma mset_insert_key: "mset (insert_key k xs) = add_mset k (mset xs)"
  by (induction xs) auto

lemma mset_sort_keys: "mset (sort_keys ks) = mset ks"
  by (induction ks) (simp_all add: mset_insert_key)

lemma sorted_insert_key:
  assumes "sorted_wrt key_le xs"
  shows "sorted_wrt key_le (insert_key k xs)"
  using assms
proof (induction xs)
  case Nil
  then show ?case by simp
next
  case (Cons x xs)
  show ?case
  proof (cases "key_before k x")
    case True
    have "key_le k y" if "y \<in> set xs" for y
      using Cons.prems that True key_le_trans[of k x y] by (auto simp: key_le_def)
    with True Cons.prems show ?thesis by (auto simp: key_le_def)
  next
    case False
    then have "key_le x k"
      using key_before_total[of k x] by (auto simp: key_le_def)
    with False Cons show ?thesis by (auto simp: set_insert_key)
  qed
qed

lemma sorted_sort_keys: "sorted_wrt key_le (sort_keys ks)"
  by (induction ks) (simp_all add: sorted_insert_key)

lemma sorted_wrt_filter_keys: "sorted_wrt R xs \<Longrightarrow> sorted_wrt R (filter P xs)"
  by (induction xs) auto

lemma dispatch_sorted_filter: "sorted_wrt dispatch_order (filter P (sort_keys ks))"
proof -
  have "sorted_wrt dispatch_order (sort_keys ks)"
    using sorted_sort_keys[of ks] key_le_dispatch_order
    by (rule sorted_wrt_mono_rel[rotated]) 
  then show ?thesis by (rule sorted_wrt_filter_keys)
qed

text \<open>
  Claim C3. After \<open>update_dependency_cache\<close> both dispatch sequences are sorted by
  the key: an entry stands before another only if it has more dependents, or as many
  and a larger performance sample, or both equal and a handle that is not larger. The
  two sequences together hold the key of every registered unit exactly as often as the
  registry holds the unit, and the cache is clean.
\<close>

theorem dispatch_sequence_sorted:
  "sorted_wrt dispatch_order (affinity_sequence (update_dependency_cache s))
   \<and> sorted_wrt dispatch_order (normal_sequence (update_dependency_cache s))
   \<and> mset (affinity_sequence (update_dependency_cache s))
       + mset (normal_sequence (update_dependency_cache s))
       = mset (map (key_of s) (registry s))
   \<and> registry (update_dependency_cache s) = registry s
   \<and> cache_dirty (update_dependency_cache s) = False"
proof -
  let ?ks = "sort_keys (map (key_of s) (registry s))"
  have "mset (filter (is_affinity s) ?ks) + mset (filter (\<lambda>k. \<not> is_affinity s k) ?ks)
          = mset ?ks"
    by simp
  then have "mset (filter (is_affinity s) ?ks) + mset (filter (\<lambda>k. \<not> is_affinity s k) ?ks)
          = mset (map (key_of s) (registry s))"
    by (simp only: mset_sort_keys)
  then show ?thesis
    by (simp add: update_dependency_cache_def Let_def dispatch_sorted_filter)
qed

text \<open>
  The diamond: \<open>a\<close> has three dependents and comes first; \<open>b\<close> and \<open>c\<close> have
  one each, and \<open>c\<close>, which runs longer, comes before \<open>b\<close>; \<open>d\<close> is alone in
  the main-affinity sequence.
\<close>

theorem dispatch_sequence_sorted_diamond:
  "sorted_wrt dispatch_order (normal_sequence (update_dependency_cache diamond))
   \<and> normal_sequence (update_dependency_cache diamond)
       = [\<lparr>dependent_count = 3, perf_sample = 0, unit_handle = 0\<rparr>,
          \<lparr>dependent_count = 1, perf_sample = 500, unit_handle = 2\<rparr>,
          \<lparr>dependent_count = 1, perf_sample = 0, unit_handle = 1\<rparr>]
   \<and> affinity_sequence (update_dependency_cache diamond)
       = [\<lparr>dependent_count = 0, perf_sample = 0, unit_handle = 3\<rparr>]"
  using dispatch_sequence_sorted [of diamond]
  by (simp add: diamond_def add_work_unit_def add_dependency_def empty_scheduler_def Let_def
      update_dependency_cache_def key_of_def dependents_def edge_count_def is_affinity_def
      key_before_def)

end
